theory Spec2Isabelle
  imports Main "HOL-Library.Sublist"
begin

section \<open>Campus Resource Share: the Streamlit script \<^verbatim>\<open>app.py\<close>\<close>

text \<open>
  The application is one Python script that Streamlit runs from top to bottom on every
  user interaction. The model follows the script section by section: the moderation
  pipeline \<^verbatim>\<open>process_resource_with_agents\<close>, the login/signup block, the post form and
  the search block. State that outlives a run (the session, the Firestore collection,
  the storage bucket) is a record that every function takes and returns; calls to the
  managed services are recorded in a trace, so that "is never invoked" and "exactly
  once" are statements about that trace.
\<close>

subsection \<open>Strings\<close>

text \<open>
  A Python \<^verbatim>\<open>str\<close> is modelled by its UTF-8 encoding, a \<^typ>\<open>string\<close>. Concatenation,
  emptiness and the substring test \<^verbatim>\<open>a in b\<close> (\<^const>\<open>sublist\<close>) agree with the
  code-point view, because UTF-8 is self-synchronising. The three emoji of the pipeline's
  messages are written as their bytes.

  \<^verbatim>\<open>str.lower()\<close> maps \<^verbatim>\<open>A\<close>..\<^verbatim>\<open>Z\<close> to \<^verbatim>\<open>a\<close>..\<^verbatim>\<open>z\<close> on a string of ASCII
  characters. On any other string it follows the Unicode tables of the interpreter,
  which are not part of the repository: that case is a parameter (\<open>unicode_lower\<close>
  below).
\<close>

definition is_ascii :: "char \<Rightarrow> bool" where
  "is_ascii c = ((of_char c :: nat) < 128)"

definition ascii_lower :: "char \<Rightarrow> char" where
  "ascii_lower c =
     (let n = (of_char c :: nat) in if 65 \<le> n \<and> n \<le> 90 then char_of (n + 32) else c)"

subsection \<open>Data model\<close>

text \<open>
  The dictionary \<^verbatim>\<open>resource_data\<close> built at lines 155-163. Every value is a string
  except \<^verbatim>\<open>timestamp\<close>, which is the sentinel \<^verbatim>\<open>firestore.SERVER_TIMESTAMP\<close>.
\<close>

datatype server_timestamp = SERVER_TIMESTAMP

record resource =
  title :: string
  description :: string
  category :: string
  owner :: string
  file_url :: string
  status :: string
  timestamp :: server_timestamp

datatype agent_name = Stitch | Antigravity | Gemini

text \<open>Calls that leave the process: model, identity provider, bucket, Firestore.\<close>

datatype ext_call =
    LLM_run agent_name string
  | Auth_create_user string string
  | Auth_get_user_by_email string
  | Blob_upload string string
  | Blob_generate_signed_url string nat string
  | Db_add resource
  | Db_update nat string
  | Db_query_available

text \<open>What a run puts on the page (only the elements that carry data).\<close>

datatype ui_elem =
    St_error string
  | St_success string
  | St_info string
  | Card nat resource
  | St_image string
  | St_link string

text \<open>
  \<open>session_user\<close> is \<^verbatim>\<open>st.session_state.user['email']\<close> (\<open>None\<close>: the key is absent);
  \<open>resources\<close> is the Firestore collection \<^verbatim>\<open>resources\<close> as a list of (document id,
  fields), \<open>next_doc_id\<close> the id the store gives to the next added document;
  \<open>blobs\<close> is the bucket, from object name to content.
\<close>

record world =
  session_user :: "string option"
  resources :: "(nat \<times> resource) list"
  next_doc_id :: nat
  blobs :: "string \<rightharpoonup> string"
  trace :: "ext_call list"
  ui :: "ui_elem list"

text \<open>
  The collaborators the script only calls. \<^verbatim>\<open>X_agent.run(s)\<close> either returns text
  (\<open>Inr\<close>) or raises an \<^verbatim>\<open>Exception e\<close> (\<open>Inl (str e)\<close>); the same for the two
  identity calls. \<open>py_str\<close> is \<^verbatim>\<open>str(resource_data)\<close>, the interpreter's rendering
  of the dictionary.
\<close>

record externals =
  stitch_agent :: "string \<Rightarrow> string + string"
  antigravity_agent :: "string \<Rightarrow> string + string"
  gemini_agent :: "string \<Rightarrow> string + string"
  py_str :: "resource \<Rightarrow> string"
  unicode_lower :: "string \<Rightarrow> string"
  create_user :: "string \<Rightarrow> string \<Rightarrow> string + unit"
  get_user_by_email :: "string \<Rightarrow> string + unit"
  generate_signed_url :: "string \<Rightarrow> nat \<Rightarrow> string \<Rightarrow> string"

definition py_lower :: "externals \<Rightarrow> string \<Rightarrow> string" where
  "py_lower ext s = (if list_all is_ascii s then map ascii_lower s else unicode_lower ext s)"

definition call :: "ext_call \<Rightarrow> world \<Rightarrow> world" where
  "call c w = w\<lparr>trace := trace w @ [c]\<rparr>"

definition render :: "ui_elem \<Rightarrow> world \<Rightarrow> world" where
  "render e w = w\<lparr>ui := ui w @ [e]\<rparr>"

definition is_run_of :: "agent_name \<Rightarrow> ext_call \<Rightarrow> bool" where
  "is_run_of a c = (case c of LLM_run b _ \<Rightarrow> b = a | _ \<Rightarrow> False)"

definition invocations :: "agent_name \<Rightarrow> ext_call list \<Rightarrow> nat" where
  "invocations a tr = length (filter (is_run_of a) tr)"

subsection \<open>The moderation pipeline (lines 74-83)\<close>

definition rejected_prefix :: string where
  "rejected_prefix = [CHR 0xE2, CHR 0x9D, CHR 0x8C] @ '' Rejected: ''"

definition approved_prefix :: string where
  "approved_prefix =
     [CHR 0xE2, CHR 0x9C, CHR 0x85] @ '' Approved!'' @ [CHR 0x0A, CHR 0x0A]
       @ ''**AI Recommendations:**'' @ [CHR 0x0A]"

definition agent_error_prefix :: string where
  "agent_error_prefix =
     [CHR 0xE2, CHR 0x9A, CHR 0xA0, CHR 0xEF, CHR 0xB8, CHR 0x8F] @ '' Agent error: ''"

text \<open>
  The \<^verbatim>\<open>try\<close> block: each \<^verbatim>\<open>run\<close> is logged when it is made, and an \<open>Inl\<close> from
  any of them goes to the \<^verbatim>\<open>except Exception\<close> branch.
\<close>

definition process_resource_with_agents ::
    "externals \<Rightarrow> resource \<Rightarrow> world \<Rightarrow> string \<times> world" where
  "process_resource_with_agents ext resource_data w =
     (let w1 = call (LLM_run Stitch (py_str ext resource_data)) w in
      case stitch_agent ext (py_str ext resource_data) of
        Inl e \<Rightarrow> (agent_error_prefix @ e, w1)
      | Inr cleaned \<Rightarrow>
          (let w2 = call (LLM_run Antigravity cleaned) w1 in
           case antigravity_agent ext cleaned of
             Inl e \<Rightarrow> (agent_error_prefix @ e, w2)
           | Inr safety \<Rightarrow>
               if sublist ''rejected'' (py_lower ext safety)
               then (rejected_prefix @ safety, w2)
               else (let w3 = call (LLM_run Gemini cleaned) w2 in
                     case gemini_agent ext cleaned of
                       Inl e \<Rightarrow> (agent_error_prefix @ e, w3)
                     | Inr recommendations \<Rightarrow> (approved_prefix @ recommendations, w3))))"

text \<open>The outcome class of a pipeline message, read off its fixed prefix.\<close>

datatype outcome = Approved | Rejected | Agent_error

definition classify :: "string \<Rightarrow> outcome option" where
  "classify msg =
     (if prefix rejected_prefix msg then Some Rejected
      else if prefix approved_prefix msg then Some Approved
      else if prefix agent_error_prefix msg then Some Agent_error
      else None)"

subsection \<open>Widgets and control flow of one run\<close>

text \<open>
  A run reads the current value of every widget and at most one button is down.
  \<open>uploaded_file\<close> is (name, content) of the file in the uploader, if any.
\<close>

datatype button = Submit | Logout | Post_Resource | Request nat

record inputs =
  choice :: string
  email :: string
  password :: string
  title_in :: string
  description_in :: string
  category_in :: string
  uploaded_file :: "(string \<times> string) option"
  search_query :: string
  clicked :: "button option"

text \<open>
  How a block of the script ends: it falls through to the next block, \<^verbatim>\<open>st.rerun()\<close>
  restarts the script (Streamlit's rerun exception derives from \<^verbatim>\<open>BaseException\<close>,
  so the \<^verbatim>\<open>except Exception\<close> of line 106 lets it pass), or an exception that
  nothing catches ends the run.
\<close>

datatype py_exn = NameError string

datatype signal = Finished | Rerun | Raised py_exn

subsection \<open>Firestore and the bucket\<close>

definition db_add :: "resource \<Rightarrow> world \<Rightarrow> world" where
  "db_add r w =
     call (Db_add r)
       (w\<lparr>resources := resources w @ [(next_doc_id w, r)], next_doc_id := Suc (next_doc_id w)\<rparr>)"

definition set_status :: "nat \<Rightarrow> string \<Rightarrow> nat \<times> resource \<Rightarrow> nat \<times> resource" where
  "set_status doc_id s d = (if fst d = doc_id then (fst d, (snd d)\<lparr>status := s\<rparr>) else d)"

definition db_update :: "nat \<Rightarrow> string \<Rightarrow> world \<Rightarrow> world" where
  "db_update doc_id s w =
     call (Db_update doc_id s) (w\<lparr>resources := map (set_status doc_id s) (resources w)\<rparr>)"

definition db_query_available :: "world \<Rightarrow> (nat \<times> resource) list \<times> world" where
  "db_query_available w =
     (filter (\<lambda>d. status (snd d) = ''available'') (resources w), call Db_query_available w)"

definition blob_upload :: "string \<Rightarrow> string \<Rightarrow> world \<Rightarrow> world" where
  "blob_upload name content w =
     call (Blob_upload name content) (w\<lparr>blobs := (blobs w)(name \<mapsto> content)\<rparr>)"

subsection \<open>Login / signup (lines 86-117)\<close>

definition auth_error_message :: "string \<Rightarrow> string" where
  "auth_error_message e =
     (if sublist ''EMAIL_ALREADY_EXISTS'' e then ''Email already registered. Try logging in.''
      else if sublist ''INVALID_EMAIL'' e then ''Invalid email format.''
      else ''Error: '' @ e)"

definition auth_section :: "externals \<Rightarrow> inputs \<Rightarrow> world \<Rightarrow> signal \<times> world" where
  "auth_section ext inp w =
     (case session_user w of
        None \<Rightarrow>
          if clicked inp = Some Submit then
            if email inp = [] \<or> password inp = []
            then (Finished, render (St_error ''Please fill both fields'') w)
            else if choice inp = ''Signup'' then
              (let w1 = call (Auth_create_user (email inp) (password inp)) w in
               case create_user ext (email inp) (password inp) of
                 Inr _ \<Rightarrow>
                   (Finished,
                    render (St_info ''Now log in with the same credentials.'')
                      (render (St_success ''Account created successfully!'') w1))
               | Inl e \<Rightarrow> (Finished, render (St_error (auth_error_message e)) w1))
            else
              (let w1 = call (Auth_get_user_by_email (email inp)) w in
               case get_user_by_email ext (email inp) of
                 Inr _ \<Rightarrow>
                   (Rerun,
                    (render (St_success (''Welcome back, '' @ email inp @ ''!'')) w1)
                      \<lparr>session_user := Some (email inp)\<rparr>)
               | Inl e \<Rightarrow> (Finished, render (St_error (auth_error_message e)) w1))
          else (Finished, w)
      | Some user_email \<Rightarrow>
          (let w1 = render (St_success (''Logged in as: '' @ user_email)) w in
           if clicked inp = Some Logout then (Rerun, w1\<lparr>session_user := None\<rparr>)
           else (Finished, w1)))"

subsection \<open>Post form (lines 120-170)\<close>

text \<open>
  Line 146 calls \<^verbatim>\<open>timedelta(days=365)\<close>. The name is looked up among the names the
  module binds: those of the import statements (lines 1-8) and those the script assigns.
  A name that is not bound raises \<^verbatim>\<open>NameError\<close>.
\<close>

definition imported_names :: "string list" where
  "imported_names =
     [''st'', ''firebase_admin'', ''credentials'', ''firestore'', ''auth'', ''storage'',
      ''PromptTemplate'', ''LLMChain'', ''GoogleGenerativeAI'', ''os'']"

definition assigned_names :: "string list" where
  "assigned_names =
     [''cred'', ''db'', ''storage_client'', ''bucket_name'', ''bucket'', ''GEMINI_API_KEY'',
      ''llm'', ''stitch_prompt'', ''stitch_agent'', ''antigravity_prompt'',
      ''antigravity_agent'', ''gemini_prompt'', ''gemini_agent'',
      ''process_resource_with_agents'', ''choice'', ''email'', ''password'', ''user'',
      ''title'', ''description'', ''category'', ''uploaded_file'', ''submitted'',
      ''file_url'', ''filename'', ''blob'', ''signed_url'', ''resource_data'', ''ai_result'',
      ''search_query'', ''resources'', ''found'', ''doc'', ''data'', ''search_text'']"

definition timedelta :: "nat \<Rightarrow> py_exn + nat" where
  "timedelta days =
     (if ''timedelta'' \<in> set (imported_names @ assigned_names) then Inr days
      else Inl (NameError ''timedelta''))"

text \<open>
  Lines 136-152: the value of \<^verbatim>\<open>file_url\<close>. The upload is made before the arguments
  of \<^verbatim>\<open>generate_signed_url\<close> are evaluated.
\<close>

definition upload_branch ::
    "externals \<Rightarrow> string \<Rightarrow> (string \<times> string) option \<Rightarrow> world \<Rightarrow> (py_exn + string) \<times> world" where
  "upload_branch ext user_email uf w =
     (case uf of
        None \<Rightarrow> (Inr [], w)
      | Some (name, content) \<Rightarrow>
          (let filename = takeWhile (\<lambda>c. c \<noteq> CHR ''@'') user_email @ ''_'' @ name;
               w1 = blob_upload filename content w
           in case timedelta 365 of
                Inl exn \<Rightarrow> (Inl exn, w1)
              | Inr expiration \<Rightarrow>
                  (Inr (generate_signed_url ext filename expiration ''GET''),
                   render (St_success ''File uploaded securely!'')
                     (call (Blob_generate_signed_url filename expiration ''GET'') w1))))"

definition new_resource :: "inputs \<Rightarrow> string \<Rightarrow> string \<Rightarrow> resource" where
  "new_resource inp user_email url =
     \<lparr>title = title_in inp, description = description_in inp, category = category_in inp,
      owner = user_email, file_url = url, status = ''available'',
      timestamp = SERVER_TIMESTAMP\<rparr>"

definition post_section :: "externals \<Rightarrow> inputs \<Rightarrow> world \<Rightarrow> signal \<times> world" where
  "post_section ext inp w =
     (case session_user w of
        None \<Rightarrow> (Finished, w)
      | Some user_email \<Rightarrow>
          if clicked inp = Some Post_Resource then
            if title_in inp = [] \<or> description_in inp = []
            then (Finished, render (St_error ''Title and description are required.'') w)
            else
              (case upload_branch ext user_email (uploaded_file inp) w of
                 (Inl exn, w1) \<Rightarrow> (Raised exn, w1)
               | (Inr url, w1) \<Rightarrow>
                   (let resource_data = new_resource inp user_email url;
                        w2 = db_add resource_data w1;
                        (ai_result, w3) = process_resource_with_agents ext resource_data w2
                    in (Finished,
                        render (St_info ai_result)
                          (render (St_success ''Resource posted successfully!'') w3))))
          else (Finished, w))"

subsection \<open>Search and request (lines 176-208)\<close>

definition search_text :: "externals \<Rightarrow> resource \<Rightarrow> string" where
  "search_text ext data =
     py_lower ext (title data @ '' '' @ description data @ '' '' @ category data)"

definition matches :: "externals \<Rightarrow> string \<Rightarrow> resource \<Rightarrow> bool" where
  "matches ext q data = (sublist (py_lower ext q) (search_text ext data) \<or> q = [])"

definition render_file :: "externals \<Rightarrow> resource \<Rightarrow> world \<Rightarrow> world" where
  "render_file ext data w =
     (if file_url data = [] then w
      else if suffix ''.jpg'' (py_lower ext (file_url data))
              \<or> suffix ''.jpeg'' (py_lower ext (file_url data))
              \<or> suffix ''.png'' (py_lower ext (file_url data))
           then render (St_image (file_url data)) w
           else render (St_link (file_url data)) w)"

text \<open>
  The \<^verbatim>\<open>for doc in resources\<close> loop, with the flag \<^verbatim>\<open>found\<close>. The button of a card is
  down when its key, the document id, is the one that was clicked; the update is followed
  by \<^verbatim>\<open>st.rerun()\<close>, which leaves the loop.
\<close>

fun search_loop ::
    "externals \<Rightarrow> inputs \<Rightarrow> (nat \<times> resource) list \<Rightarrow> bool \<Rightarrow> world \<Rightarrow> signal \<times> bool \<times> world" where
  "search_loop ext inp [] found w = (Finished, found, w)"
| "search_loop ext inp (d # rest) found w =
     (if matches ext (search_query inp) (snd d) then
        (let w1 = render_file ext (snd d) (render (Card (fst d) (snd d)) w) in
         if clicked inp = Some (Request (fst d))
         then (Rerun, True, render (St_success ''Request sent!'') (db_update (fst d) ''requested'' w1))
         else search_loop ext inp rest True w1)
      else search_loop ext inp rest found w)"

definition search_section :: "externals \<Rightarrow> inputs \<Rightarrow> world \<Rightarrow> signal \<times> world" where
  "search_section ext inp w =
     (let (docs, w1) = db_query_available w in
      case search_loop ext inp docs False w1 of
        (Finished, found, w2) \<Rightarrow>
          (Finished,
           if \<not> found \<and> search_query inp \<noteq> []
           then render (St_info ''No resources found matching your search.'') w2
           else if search_query inp = []
           then render (St_info ''Tip: Use the search box above to filter resources.'') w2
           else w2)
      | (sig, found, w2) \<Rightarrow> (sig, w2))"

subsection \<open>One run of the script, and a session of interactions\<close>

definition script_pass :: "externals \<Rightarrow> inputs \<Rightarrow> world \<Rightarrow> signal \<times> world" where
  "script_pass ext inp w =
     (case auth_section ext inp w of
        (Finished, w1) \<Rightarrow>
          (case post_section ext inp w1 of
             (Finished, w2) \<Rightarrow> search_section ext inp w2
           | (sig, w2) \<Rightarrow> (sig, w2))
      | (sig, w1) \<Rightarrow> (sig, w1))"

text \<open>
  A rerun starts the script again on an empty page, with the same widget values and no
  button down.
\<close>

definition run_script :: "externals \<Rightarrow> inputs \<Rightarrow> world \<Rightarrow> signal \<times> world" where
  "run_script ext inp w =
     (case script_pass ext inp (w\<lparr>ui := []\<rparr>) of
        (Rerun, w1) \<Rightarrow> script_pass ext (inp\<lparr>clicked := None\<rparr>) (w1\<lparr>ui := []\<rparr>)
      | (sig, w1) \<Rightarrow> (sig, w1))"

fun session :: "externals \<Rightarrow> inputs list \<Rightarrow> world \<Rightarrow> world" where
  "session ext [] w = w"
| "session ext (inp # inps) w = session ext inps (snd (run_script ext inp w))"

subsection \<open>Vocabulary of the statements\<close>

definition is_llm_call :: "ext_call \<Rightarrow> bool" where
  "is_llm_call c = (case c of LLM_run a s \<Rightarrow> True | _ \<Rightarrow> False)"

text \<open>The same collaborators with other model stages.\<close>

definition with_agents ::
    "externals \<Rightarrow> (string \<Rightarrow> string + string) \<Rightarrow> (string \<Rightarrow> string + string)
      \<Rightarrow> (string \<Rightarrow> string + string) \<Rightarrow> externals" where
  "with_agents ext s a g = ext\<lparr>stitch_agent := s, antigravity_agent := a, gemini_agent := g\<rparr>"

text \<open>The listings a page shows: the cards among its elements, in order.\<close>

definition cards_of :: "ui_elem list \<Rightarrow> (nat \<times> resource) list" where
  "cards_of es = concat (map (\<lambda>e. case e of Card i r \<Rightarrow> [(i, r)] | _ \<Rightarrow> []) es)"

text \<open>
  The condition of the search block on one document, in the words of its description:
  the status is \<^verbatim>\<open>available\<close> and the query is empty or, in lower case, a substring of
  the lower-cased title, description and category joined by single spaces.
\<close>

definition listed :: "externals \<Rightarrow> string \<Rightarrow> nat \<times> resource \<Rightarrow> bool" where
  "listed ext q d =
     (status (snd d) = ''available''
      \<and> (q = [] \<or> sublist (py_lower ext q)
            (py_lower ext (title (snd d) @ '' '' @ description (snd d) @ '' '' @ category (snd d)))))"

text \<open>
  The life of a listing. \<open>forward_only\<close>: a listing is unchanged, or it was
  \<^verbatim>\<open>available\<close> and only its status changed, to \<^verbatim>\<open>requested\<close>. \<open>evolves\<close>: every
  document of the earlier collection is still there, at the same place and under the same
  id, and has only moved forward. \<open>created_ok\<close>: what a new listing looks like.
  \<open>wf_store\<close>: document ids are unique and below the next id the store hands out.
\<close>

definition forward_only :: "resource \<Rightarrow> resource \<Rightarrow> bool" where
  "forward_only r r' = (r' = r \<or> (status r = ''available'' \<and> r' = r\<lparr>status := ''requested''\<rparr>))"

definition same_doc_forward :: "nat \<times> resource \<Rightarrow> nat \<times> resource \<Rightarrow> bool" where
  "same_doc_forward d d' = (fst d' = fst d \<and> forward_only (snd d) (snd d'))"

definition evolves :: "(nat \<times> resource) list \<Rightarrow> (nat \<times> resource) list \<Rightarrow> bool" where
  "evolves ds ds' =
     (length ds \<le> length ds' \<and> list_all2 same_doc_forward ds (take (length ds) ds'))"

definition created_ok :: "nat \<times> resource \<Rightarrow> bool" where
  "created_ok d =
     (title (snd d) \<noteq> [] \<and> description (snd d) \<noteq> [] \<and> status (snd d) = ''available'')"

definition wf_store :: "world \<Rightarrow> bool" where
  "wf_store w =
     (distinct (map fst (resources w)) \<and> list_all (\<lambda>d. fst d < next_doc_id w) (resources w))"

subsection \<open>Stubbed collaborators and sample inputs\<close>

text \<open>
  Deterministic stand-ins for the managed services, in the manner of the end-to-end
  scenarios of the specification: a cleaner that trims nothing, screeners with a fixed
  verdict, a recommender with a fixed list, and stages that raise.
\<close>

definition stub_ext ::
    "(string \<Rightarrow> string + string) \<Rightarrow> (string \<Rightarrow> string + string)
      \<Rightarrow> (string \<Rightarrow> string + string) \<Rightarrow> externals" where
  "stub_ext s a g =
     \<lparr>stitch_agent = s, antigravity_agent = a, gemini_agent = g,
      py_str = (\<lambda>r. title r @ '', '' @ description r),
      unicode_lower = (\<lambda>x. x),
      create_user = (\<lambda>e p. Inr ()),
      get_user_by_email = (\<lambda>e. Inr ()),
      generate_signed_url = (\<lambda>n d m. ''https://storage.example/'' @ n)\<rparr>"

definition cleaner :: "string \<Rightarrow> string + string" where
  "cleaner x = Inr (''cleaned: '' @ x)"

definition approving :: "string \<Rightarrow> string + string" where
  "approving x = Inr ''APPROVED - no issues''"

definition rejecting :: "string \<Rightarrow> string + string" where
  "rejecting x = Inr ''REJECTED - contains phone number''"

definition recommender :: "string \<Rightarrow> string + string" where
  "recommender x = Inr ''1. Pattern Recognition 2. Deep Learning 3. Lecture notes''"

definition timing_out :: "string \<Rightarrow> string + string" where
  "timing_out x = Inl ''timeout''"

definition ml_book :: resource where
  "ml_book =
     \<lparr>title = ''Intro to ML by Andrew Ng'', description = ''great condition'',
      category = ''Books'', owner = ''asha@college.edu'', file_url = [],
      status = ''available'', timestamp = SERVER_TIMESTAMP\<rparr>"

definition fresh_world :: world where
  "fresh_world =
     \<lparr>session_user = None, resources = [], next_doc_id = 0, blobs = Map.empty,
      trace = [], ui = []\<rparr>"

definition logged_in :: world where
  "logged_in = fresh_world\<lparr>session_user := Some ''asha@college.edu''\<rparr>"

definition no_input :: inputs where
  "no_input =
     \<lparr>choice = ''Login'', email = [], password = [], title_in = [], description_in = [],
      category_in = ''Books'', uploaded_file = None, search_query = [], clicked = None\<rparr>"

definition post_ml_book :: inputs where
  "post_ml_book =
     no_input\<lparr>title_in := ''Intro to ML by Andrew Ng'', description_in := ''great condition'',
       clicked := Some Post_Resource\<rparr>"

definition post_with_photo :: inputs where
  "post_with_photo = post_ml_book\<lparr>uploaded_file := Some (''cover.png'', ''PNGDATA'')\<rparr>"

definition two_listings :: world where
  "two_listings =
     logged_in\<lparr>resources := [(0, ml_book), (1, ml_book\<lparr>title := ''Lab coat'', status := ''requested''\<rparr>)],
       next_doc_id := 2\<rparr>"

definition search_andrew :: inputs where
  "search_andrew = no_input\<lparr>search_query := ''ANDREW''\<rparr>"

definition empty_post :: inputs where
  "empty_post = no_input\<lparr>clicked := Some Post_Resource\<rparr>"

definition empty_login :: inputs where
  "empty_login = no_input\<lparr>clicked := Some Submit\<rparr>"

definition request_first :: inputs where
  "request_first = no_input\<lparr>clicked := Some (Request 0)\<rparr>"

section \<open>Properties of the moderation pipeline\<close>

lemma trace_call: "trace (call c w) = trace w @ [c]"
  by (simp add: call_def)

lemma invocations_append: "invocations a (xs @ ys) = invocations a xs + invocations a ys"
  by (simp add: invocations_def)

lemma invocations_simps:
  "invocations a [] = 0"
  "invocations a (LLM_run b s # tr) = (if b = a then Suc (invocations a tr) else invocations a tr)"
  by (simp_all add: invocations_def is_run_of_def)

lemma stub_py_str_ml_book:
  "py_str (stub_ext s a g) ml_book = ''Intro to ML by Andrew Ng, great condition''"
  by (simp add: stub_ext_def ml_book_def)

lemma trace_fresh_world: "trace fresh_world = []"
  by (simp add: fresh_world_def)

text \<open>
  Claim C1. When the normalizer and the screener return and the screener's text, put to
  lower case, contains \<^verbatim>\<open>rejected\<close>, the pipeline returns the rejection prefix followed
  by the screener's text unchanged, and its only model calls are the normalizer and the
  screener: the recommender is not run.
\<close>

theorem rejected_short_circuits:
  assumes "stitch_agent ext (py_str ext d) = Inr cleaned"
      and "antigravity_agent ext cleaned = Inr safety"
      and "sublist ''rejected'' (py_lower ext safety)"
  shows "fst (process_resource_with_agents ext d w) = rejected_prefix @ safety
       \<and> trace (snd (process_resource_with_agents ext d w))
           = trace w @ [LLM_run Stitch (py_str ext d), LLM_run Antigravity cleaned]
       \<and> invocations Gemini (trace (snd (process_resource_with_agents ext d w)))
           = invocations Gemini (trace w)"
  using assms
  by (simp add: process_resource_with_agents_def Let_def trace_call invocations_append
      invocations_simps)

theorem rejected_short_circuits_witness:
  "fst (process_resource_with_agents (stub_ext cleaner rejecting recommender) ml_book fresh_world)
     = rejected_prefix @ ''REJECTED - contains phone number''
   \<and> trace (snd (process_resource_with_agents (stub_ext cleaner rejecting recommender) ml_book
        fresh_world))
     = [LLM_run Stitch ''Intro to ML by Andrew Ng, great condition'',
        LLM_run Antigravity ''cleaned: Intro to ML by Andrew Ng, great condition'']
   \<and> invocations Gemini (trace (snd (process_resource_with_agents
        (stub_ext cleaner rejecting recommender) ml_book fresh_world))) = 0"
proof -
  let ?ext = "stub_ext cleaner rejecting recommender"
  have s: "stitch_agent ?ext (py_str ?ext ml_book)
             = Inr ''cleaned: Intro to ML by Andrew Ng, great condition''"
    by (simp add: stub_ext_def cleaner_def ml_book_def)
  have a: "antigravity_agent ?ext ''cleaned: Intro to ML by Andrew Ng, great condition''
             = Inr ''REJECTED - contains phone number''"
    by (simp add: stub_ext_def rejecting_def)
  have t: "sublist ''rejected'' (py_lower ?ext ''REJECTED - contains phone number'')"
    by code_simp
  from rejected_short_circuits [OF s a t, of fresh_world] show ?thesis
    by (simp add: stub_py_str_ml_book trace_fresh_world invocations_simps)
qed

text \<open>
  Claim C2. When the normalizer and the screener return and the screener's text, put to
  lower case, does not contain \<^verbatim>\<open>rejected\<close>, the recommender is run exactly once, on
  the normalizer's cleaned text. If it returns, the pipeline's message is the approval
  prefix followed by the recommender's text unchanged; if it raises, the message is the
  wrapped error.
\<close>

theorem approved_runs_recommender_once:
  assumes "stitch_agent ext (py_str ext d) = Inr cleaned"
      and "antigravity_agent ext cleaned = Inr safety"
      and "\<not> sublist ''rejected'' (py_lower ext safety)"
  shows "trace (snd (process_resource_with_agents ext d w))
           = trace w @ [LLM_run Stitch (py_str ext d), LLM_run Antigravity cleaned,
                        LLM_run Gemini cleaned]
       \<and> invocations Gemini (trace (snd (process_resource_with_agents ext d w)))
           = Suc (invocations Gemini (trace w))
       \<and> (case gemini_agent ext cleaned of
            Inr recommendations \<Rightarrow>
              fst (process_resource_with_agents ext d w) = approved_prefix @ recommendations
              \<and> sublist recommendations (fst (process_resource_with_agents ext d w))
          | Inl e \<Rightarrow> fst (process_resource_with_agents ext d w) = agent_error_prefix @ e)"
  using assms
  by (simp add: process_resource_with_agents_def Let_def trace_call invocations_append
      invocations_simps split: sum.split)

theorem approved_runs_recommender_once_witness:
  "trace (snd (process_resource_with_agents (stub_ext cleaner approving recommender) ml_book
        fresh_world))
     = [LLM_run Stitch ''Intro to ML by Andrew Ng, great condition'',
        LLM_run Antigravity ''cleaned: Intro to ML by Andrew Ng, great condition'',
        LLM_run Gemini ''cleaned: Intro to ML by Andrew Ng, great condition'']
   \<and> invocations Gemini (trace (snd (process_resource_with_agents
        (stub_ext cleaner approving recommender) ml_book fresh_world))) = 1
   \<and> fst (process_resource_with_agents (stub_ext cleaner approving recommender) ml_book
        fresh_world)
     = approved_prefix @ ''1. Pattern Recognition 2. Deep Learning 3. Lecture notes''"
proof -
  let ?ext = "stub_ext cleaner approving recommender"
  have s: "stitch_agent ?ext (py_str ?ext ml_book)
             = Inr ''cleaned: Intro to ML by Andrew Ng, great condition''"
    by (simp add: stub_ext_def cleaner_def ml_book_def)
  have a: "antigravity_agent ?ext ''cleaned: Intro to ML by Andrew Ng, great condition''
             = Inr ''APPROVED - no issues''"
    by (simp add: stub_ext_def approving_def)
  have t: "\<not> sublist ''rejected'' (py_lower ?ext ''APPROVED - no issues'')"
    by code_simp
  have g: "gemini_agent ?ext ''cleaned: Intro to ML by Andrew Ng, great condition''
             = Inr ''1. Pattern Recognition 2. Deep Learning 3. Lecture notes''"
    by (simp add: stub_ext_def recommender_def)
  from approved_runs_recommender_once [OF s a t, of fresh_world] show ?thesis
    by (simp add: stub_py_str_ml_book trace_fresh_world invocations_simps g)
qed

text \<open>
  Claim C3. When the normalizer raises, the pipeline returns the error prefix followed by
  the text of the exception (it returns a message; nothing is raised to the caller), the
  normalizer's call is its only model call, and neither the screener nor the recommender
  is run.
\<close>

theorem normalizer_failure_aborts:
  assumes "stitch_agent ext (py_str ext d) = Inl e"
  shows "fst (process_resource_with_agents ext d w) = agent_error_prefix @ e
       \<and> trace (snd (process_resource_with_agents ext d w))
           = trace w @ [LLM_run Stitch (py_str ext d)]
       \<and> invocations Antigravity (trace (snd (process_resource_with_agents ext d w)))
           = invocations Antigravity (trace w)
       \<and> invocations Gemini (trace (snd (process_resource_with_agents ext d w)))
           = invocations Gemini (trace w)"
  using assms
  by (simp add: process_resource_with_agents_def Let_def trace_call invocations_append
      invocations_simps)

theorem normalizer_failure_aborts_witness:
  "fst (process_resource_with_agents (stub_ext timing_out approving recommender) ml_book
        fresh_world)
     = agent_error_prefix @ ''timeout''
   \<and> trace (snd (process_resource_with_agents (stub_ext timing_out approving recommender)
        ml_book fresh_world))
     = [LLM_run Stitch ''Intro to ML by Andrew Ng, great condition'']"
proof -
  let ?ext = "stub_ext timing_out approving recommender"
  have s: "stitch_agent ?ext (py_str ?ext ml_book) = Inl ''timeout''"
    by (simp add: stub_ext_def timing_out_def)
  from normalizer_failure_aborts [OF s, of fresh_world] show ?thesis
    by (simp add: stub_py_str_ml_book trace_fresh_world)
qed

text \<open>
  Claim C4. When the normalizer returns and the screener raises, the pipeline returns the
  error prefix followed by the text of the exception, and the recommender is not run.
\<close>

theorem screener_failure_aborts:
  assumes "stitch_agent ext (py_str ext d) = Inr cleaned"
      and "antigravity_agent ext cleaned = Inl e"
  shows "fst (process_resource_with_agents ext d w) = agent_error_prefix @ e
       \<and> trace (snd (process_resource_with_agents ext d w))
           = trace w @ [LLM_run Stitch (py_str ext d), LLM_run Antigravity cleaned]
       \<and> invocations Gemini (trace (snd (process_resource_with_agents ext d w)))
           = invocations Gemini (trace w)"
  using assms
  by (simp add: process_resource_with_agents_def Let_def trace_call invocations_append
      invocations_simps)

theorem screener_failure_aborts_witness:
  "fst (process_resource_with_agents (stub_ext cleaner timing_out recommender) ml_book
        fresh_world)
     = agent_error_prefix @ ''timeout''
   \<and> trace (snd (process_resource_with_agents (stub_ext cleaner timing_out recommender)
        ml_book fresh_world))
     = [LLM_run Stitch ''Intro to ML by Andrew Ng, great condition'',
        LLM_run Antigravity ''cleaned: Intro to ML by Andrew Ng, great condition'']"
proof -
  let ?ext = "stub_ext cleaner timing_out recommender"
  have s: "stitch_agent ?ext (py_str ?ext ml_book)
             = Inr ''cleaned: Intro to ML by Andrew Ng, great condition''"
    by (simp add: stub_ext_def cleaner_def ml_book_def)
  have a: "antigravity_agent ?ext ''cleaned: Intro to ML by Andrew Ng, great condition''
             = Inl ''timeout''"
    by (simp add: stub_ext_def timing_out_def)
  from screener_failure_aborts [OF s a, of fresh_world] show ?thesis
    by (simp add: stub_py_str_ml_book trace_fresh_world)
qed

lemma process_message_stateless:
  "fst (process_resource_with_agents ext d w) = fst (process_resource_with_agents ext d w')"
  by (simp add: process_resource_with_agents_def Let_def split: sum.split)

lemma classify_prefixes:
  "classify (rejected_prefix @ s) = Some Rejected"
  "classify (approved_prefix @ s) = Some Approved"
  "classify (agent_error_prefix @ s) = Some Agent_error"
  by (simp_all add: classify_def rejected_prefix_def approved_prefix_def agent_error_prefix_def)

text \<open>
  Claim C8. With the three stages given by functions of their input, running the pipeline
  a second time on the same submission, in the state the first run left, gives the same
  message and so the same outcome class; and every message has an outcome class.
\<close>

theorem pipeline_twice_same_outcome:
  "fst (process_resource_with_agents ext d (snd (process_resource_with_agents ext d w)))
     = fst (process_resource_with_agents ext d w)
   \<and> classify (fst (process_resource_with_agents ext d
        (snd (process_resource_with_agents ext d w))))
     = classify (fst (process_resource_with_agents ext d w))
   \<and> classify (fst (process_resource_with_agents ext d w))
       \<in> {Some Approved, Some Rejected, Some Agent_error}"
  using process_message_stateless [of ext d "snd (process_resource_with_agents ext d w)" w]
  by (simp add: process_resource_with_agents_def Let_def classify_prefixes split: sum.split)

section \<open>Properties of the post form\<close>

lemma timedelta_unbound: "timedelta days = Inl (NameError ''timedelta'')"
  by (simp add: timedelta_def imported_names_def assigned_names_def)

lemma upload_branch_Some:
  "upload_branch ext u (Some (name, content)) w
     = (Inl (NameError ''timedelta''),
        blob_upload (takeWhile (\<lambda>c. c \<noteq> CHR ''@'') u @ ''_'' @ name) content w)"
  by (simp add: upload_branch_def timedelta_unbound Let_def)

lemma upload_branch_None: "upload_branch ext u None w = (Inr [], w)"
  by (simp add: upload_branch_def)

lemma process_frame:
  "resources (snd (process_resource_with_agents ext d w)) = resources w"
  "next_doc_id (snd (process_resource_with_agents ext d w)) = next_doc_id w"
  "blobs (snd (process_resource_with_agents ext d w)) = blobs w"
  "session_user (snd (process_resource_with_agents ext d w)) = session_user w"
  "ui (snd (process_resource_with_agents ext d w)) = ui w"
  by (simp_all add: process_resource_with_agents_def Let_def call_def split: sum.split)

lemma process_trace:
  "\<exists>calls. trace (snd (process_resource_with_agents ext d w)) = trace w @ calls
       \<and> calls \<noteq> [] \<and> list_all is_llm_call calls"
  by (simp add: process_resource_with_agents_def Let_def call_def is_llm_call_def
      split: sum.split)

lemma post_section_valid_no_file:
  assumes "session_user w = Some u" "clicked inp = Some Post_Resource"
      "title_in inp \<noteq> []" "description_in inp \<noteq> []" "uploaded_file inp = None"
  shows "post_section ext inp w
     = (Finished,
        render (St_info (fst (process_resource_with_agents ext (new_resource inp u [])
                   (db_add (new_resource inp u []) w))))
          (render (St_success ''Resource posted successfully!'')
            (snd (process_resource_with_agents ext (new_resource inp u [])
                   (db_add (new_resource inp u []) w)))))"
  using assms
  by (simp add: post_section_def upload_branch_None Let_def split: prod.split)

lemma post_section_with_file:
  assumes "session_user w = Some u" "clicked inp = Some Post_Resource"
      "title_in inp \<noteq> []" "description_in inp \<noteq> []" "uploaded_file inp = Some (name, content)"
  shows "post_section ext inp w
     = (Raised (NameError ''timedelta''),
        blob_upload (takeWhile (\<lambda>c. c \<noteq> CHR ''@'') u @ ''_'' @ name) content w)"
  using assms
  by (simp add: post_section_def upload_branch_Some)

lemma post_section_resources_cases:
  "resources (snd (post_section ext inp w)) =
     (case session_user w of
        None \<Rightarrow> resources w
      | Some u \<Rightarrow>
          if clicked inp = Some Post_Resource \<and> title_in inp \<noteq> [] \<and> description_in inp \<noteq> []
             \<and> uploaded_file inp = None
          then resources w @ [(next_doc_id w, new_resource inp u [])]
          else resources w)"
proof (cases "session_user w")
  case None
  then show ?thesis by (simp add: post_section_def)
next
  case (Some u)
  show ?thesis
  proof (cases "clicked inp = Some Post_Resource \<and> title_in inp \<noteq> [] \<and> description_in inp \<noteq> []")
    case True
    show ?thesis
    proof (cases "uploaded_file inp")
      case None
      with True Some show ?thesis
        by (simp add: post_section_valid_no_file render_def process_frame db_add_def call_def)
    next
      case (Some f)
      obtain name content where "f = (name, content)" by (cases f)
      with Some True \<open>session_user w = Some u\<close> show ?thesis
        by (simp add: post_section_with_file blob_upload_def call_def)
    qed
  next
    case False
    with Some show ?thesis
      by (auto simp add: post_section_def render_def)
  qed
qed

text \<open>
  Claim C5. The pipeline leaves the Firestore collection as it found it. The collection
  after the post form's handler is the same whatever the three model stages do. On a
  valid submission without a file, the handler appends the new listing to the collection,
  and in its trace the \<^verbatim>\<open>add\<close> comes first and is followed by model calls only.
\<close>

theorem listing_persisted_before_pipeline:
  "resources (snd (process_resource_with_agents ext d w)) = resources w
   \<and> resources (snd (post_section (with_agents ext s a g) inp w))
       = resources (snd (post_section ext inp w))
   \<and> (session_user w = Some u \<and> clicked inp = Some Post_Resource \<and> title_in inp \<noteq> []
        \<and> description_in inp \<noteq> [] \<and> uploaded_file inp = None \<longrightarrow>
      resources (snd (post_section ext inp w))
        = resources w @ [(next_doc_id w, new_resource inp u [])]
      \<and> (\<exists>calls. trace (snd (post_section ext inp w))
              = trace w @ Db_add (new_resource inp u []) # calls
            \<and> calls \<noteq> [] \<and> list_all is_llm_call calls))"
proof -
  have order: "\<exists>calls. trace (snd (post_section ext inp w))
              = trace w @ Db_add (new_resource inp u []) # calls
            \<and> calls \<noteq> [] \<and> list_all is_llm_call calls"
    if h: "session_user w = Some u" "clicked inp = Some Post_Resource" "title_in inp \<noteq> []"
      "description_in inp \<noteq> []" "uploaded_file inp = None"
  proof -
    obtain calls where
      "trace (snd (process_resource_with_agents ext (new_resource inp u [])
         (db_add (new_resource inp u []) w)))
         = trace (db_add (new_resource inp u []) w) @ calls"
      "calls \<noteq> []" "list_all is_llm_call calls"
      using process_trace by blast
    then show ?thesis
      using h by (simp add: post_section_valid_no_file render_def db_add_def call_def)
  qed
  show ?thesis
    using order
    by (simp add: process_frame post_section_resources_cases)
qed


lemma new_resource_post_ml_book: "new_resource post_ml_book ''asha@college.edu'' [] = ml_book"
  by (simp add: new_resource_def post_ml_book_def no_input_def ml_book_def)

lemma logged_in_simps:
  "session_user logged_in = Some ''asha@college.edu''"
  "resources logged_in = []"
  "next_doc_id logged_in = 0"
  "trace logged_in = []"
  "ui logged_in = []"
  by (simp_all add: logged_in_def fresh_world_def)

lemma post_ml_book_simps:
  "clicked post_ml_book = Some Post_Resource"
  "title_in post_ml_book = ''Intro to ML by Andrew Ng''"
  "description_in post_ml_book = ''great condition''"
  "uploaded_file post_ml_book = None"
  "search_query post_ml_book = []"
  by (simp_all add: post_ml_book_def no_input_def)

lemma post_with_photo_simps:
  "clicked post_with_photo = Some Post_Resource"
  "title_in post_with_photo = ''Intro to ML by Andrew Ng''"
  "description_in post_with_photo = ''great condition''"
  "uploaded_file post_with_photo = Some (''cover.png'', ''PNGDATA'')"
  by (simp_all add: post_with_photo_def post_ml_book_def no_input_def)

theorem listing_persisted_before_pipeline_witness:
  "resources (snd (post_section
       (with_agents (stub_ext cleaner approving recommender) timing_out rejecting recommender)
       post_ml_book logged_in))
     = resources (snd (post_section (stub_ext cleaner approving recommender) post_ml_book logged_in))
   \<and> resources (snd (post_section (stub_ext cleaner approving recommender) post_ml_book logged_in))
     = [(0, ml_book)]
   \<and> (\<exists>calls. trace (snd (post_section (stub_ext cleaner approving recommender) post_ml_book
           logged_in)) = Db_add ml_book # calls
         \<and> calls \<noteq> [] \<and> list_all is_llm_call calls)"
  using listing_persisted_before_pipeline
    [of "stub_ext cleaner approving recommender" ml_book logged_in timing_out rejecting
      recommender post_ml_book "''asha@college.edu''"]
  by (simp add: logged_in_simps post_ml_book_simps new_resource_post_ml_book)

lemma auth_section_logged_in:
  assumes "session_user w = Some u" "clicked inp \<noteq> Some Logout"
  shows "auth_section ext inp w = (Finished, render (St_success (''Logged in as: '' @ u)) w)"
  using assms by (simp add: auth_section_def Let_def)

text \<open>
  Claim C6. A valid submission that carries a file: the file is uploaded, then the lookup
  of \<^verbatim>\<open>timedelta\<close> raises \<^verbatim>\<open>NameError\<close>, which nothing catches. No signed URL is
  generated and no listing is stored; the run ends there.
\<close>

theorem upload_never_yields_signed_url:
  assumes "session_user w = Some u" and "clicked inp = Some Post_Resource"
      and "title_in inp \<noteq> []" and "description_in inp \<noteq> []"
      and "uploaded_file inp = Some (name, content)"
  shows "fst (post_section ext inp w) = Raised (NameError ''timedelta'')
       \<and> trace (snd (post_section ext inp w))
           = trace w @ [Blob_upload (takeWhile (\<lambda>c. c \<noteq> CHR ''@'') u @ ''_'' @ name) content]
       \<and> resources (snd (post_section ext inp w)) = resources w
       \<and> fst (run_script ext inp w) = Raised (NameError ''timedelta'')
       \<and> trace (snd (run_script ext inp w))
           = trace w @ [Blob_upload (takeWhile (\<lambda>c. c \<noteq> CHR ''@'') u @ ''_'' @ name) content]
       \<and> resources (snd (run_script ext inp w)) = resources w"
proof -
  let ?w0 = "render (St_success (''Logged in as: '' @ u)) (w\<lparr>ui := []\<rparr>)"
  have a: "auth_section ext inp (w\<lparr>ui := []\<rparr>) = (Finished, ?w0)"
    using assms by (simp add: auth_section_logged_in)
  have u0: "session_user ?w0 = Some u"
    using assms by (simp add: render_def)
  have p: "post_section ext inp ?w0
     = (Raised (NameError ''timedelta''),
        blob_upload (takeWhile (\<lambda>c. c \<noteq> CHR ''@'') u @ ''_'' @ name) content ?w0)"
    using u0 assms(2-5) by (rule post_section_with_file)
  have r: "run_script ext inp w
     = (Raised (NameError ''timedelta''),
        blob_upload (takeWhile (\<lambda>c. c \<noteq> CHR ''@'') u @ ''_'' @ name) content ?w0)"
    unfolding run_script_def script_pass_def a prod.case signal.case p by simp
  show ?thesis
    using assms
    by (simp add: r post_section_with_file blob_upload_def call_def render_def)
qed

theorem upload_never_yields_signed_url_witness:
  "fst (post_section (stub_ext cleaner approving recommender) post_with_photo logged_in)
     = Raised (NameError ''timedelta'')
   \<and> trace (snd (post_section (stub_ext cleaner approving recommender) post_with_photo logged_in))
     = [Blob_upload ''asha_cover.png'' ''PNGDATA'']
   \<and> resources (snd (post_section (stub_ext cleaner approving recommender) post_with_photo
        logged_in)) = []
   \<and> fst (run_script (stub_ext cleaner approving recommender) post_with_photo logged_in)
     = Raised (NameError ''timedelta'')
   \<and> trace (snd (run_script (stub_ext cleaner approving recommender) post_with_photo logged_in))
     = [Blob_upload ''asha_cover.png'' ''PNGDATA'']
   \<and> resources (snd (run_script (stub_ext cleaner approving recommender) post_with_photo
        logged_in)) = []"
  using upload_never_yields_signed_url
    [of logged_in "''asha@college.edu''" post_with_photo "''cover.png''" "''PNGDATA''"
      "stub_ext cleaner approving recommender"]
  by (simp add: logged_in_simps post_with_photo_simps)

section \<open>Properties of a run of the script\<close>

lemma cards_of_simps:
  "cards_of [] = []"
  "cards_of (es @ fs) = cards_of es @ cards_of fs"
  "cards_of (Card i r # es) = (i, r) # cards_of es"
  "cards_of (St_error m # es) = cards_of es"
  "cards_of (St_success m # es) = cards_of es"
  "cards_of (St_info m # es) = cards_of es"
  "cards_of (St_image m # es) = cards_of es"
  "cards_of (St_link m # es) = cards_of es"
  by (simp_all add: cards_of_def)

lemma render_simps:
  "ui (render e w) = ui w @ [e]"
  "trace (render e w) = trace w"
  "resources (render e w) = resources w"
  "next_doc_id (render e w) = next_doc_id w"
  "blobs (render e w) = blobs w"
  "session_user (render e w) = session_user w"
  by (simp_all add: render_def)

lemma call_simps:
  "ui (call c w) = ui w"
  "resources (call c w) = resources w"
  "next_doc_id (call c w) = next_doc_id w"
  "blobs (call c w) = blobs w"
  "session_user (call c w) = session_user w"
  by (simp_all add: call_def)

lemma render_file_simps:
  "trace (render_file ext d w) = trace w"
  "resources (render_file ext d w) = resources w"
  "next_doc_id (render_file ext d w) = next_doc_id w"
  "blobs (render_file ext d w) = blobs w"
  "session_user (render_file ext d w) = session_user w"
  "cards_of (ui (render_file ext d w)) = cards_of (ui w)"
  by (simp_all add: render_file_def render_simps cards_of_simps)

lemma render_file_ui_prefix: "prefix (ui w0) (ui w) \<Longrightarrow> prefix (ui w0) (ui (render_file ext d w))"
  by (simp add: render_file_def render_simps)

lemma db_update_simps:
  "ui (db_update i s w) = ui w"
  "trace (db_update i s w) = trace w @ [Db_update i s]"
  "resources (db_update i s w) = map (set_status i s) (resources w)"
  "next_doc_id (db_update i s w) = next_doc_id w"
  "blobs (db_update i s w) = blobs w"
  "session_user (db_update i s w) = session_user w"
  by (simp_all add: db_update_def call_def)

text \<open>The loop when it runs to its end.\<close>

lemma search_loop_finished:
  "fst (search_loop ext inp docs found w) = Finished \<Longrightarrow>
     trace (snd (snd (search_loop ext inp docs found w))) = trace w
     \<and> resources (snd (snd (search_loop ext inp docs found w))) = resources w
     \<and> next_doc_id (snd (snd (search_loop ext inp docs found w))) = next_doc_id w
     \<and> blobs (snd (snd (search_loop ext inp docs found w))) = blobs w
     \<and> session_user (snd (snd (search_loop ext inp docs found w))) = session_user w
     \<and> cards_of (ui (snd (snd (search_loop ext inp docs found w))))
         = cards_of (ui w) @ filter (\<lambda>d. matches ext (search_query inp) (snd d)) docs"
proof (induction docs arbitrary: found w)
  case Nil
  then show ?case by simp
next
  case (Cons d rest)
  show ?case
  proof (cases "matches ext (search_query inp) (snd d)")
    case False
    with Cons show ?thesis by simp
  next
    case True
    let ?w1 = "render_file ext (snd d) (render (Card (fst d) (snd d)) w)"
    from True Cons.prems have nc: "clicked inp \<noteq> Some (Request (fst d))"
      by (auto simp add: Let_def)
    with True have eq: "search_loop ext inp (d # rest) found w = search_loop ext inp rest True ?w1"
      by (simp add: Let_def)
    with Cons.prems have "fst (search_loop ext inp rest True ?w1) = Finished" by simp
    from Cons.IH [OF this] True show ?thesis
      unfolding eq by (simp add: render_file_simps render_simps cards_of_simps)
  qed
qed

lemma search_loop_signal:
  "fst (search_loop ext inp docs found w) = Finished \<or> fst (search_loop ext inp docs found w) = Rerun"
  by (induction docs arbitrary: found w) (simp_all add: Let_def)

lemma search_loop_no_request:
  "(\<And>i. clicked inp \<noteq> Some (Request i)) \<Longrightarrow> fst (search_loop ext inp docs found w) = Finished"
  by (induction docs arbitrary: found w) (simp_all add: Let_def)

lemma search_loop_ui_prefix:
  "prefix (ui w0) (ui w) \<Longrightarrow> prefix (ui w0) (ui (snd (snd (search_loop ext inp docs found w))))"
proof (induction docs arbitrary: found w)
  case Nil
  then show ?case by simp
next
  case (Cons d rest)
  have "prefix (ui w0) (ui (render_file ext (snd d) (render (Card (fst d) (snd d)) w)))"
    using Cons.prems by (simp add: render_file_ui_prefix render_simps)
  with Cons show ?case
    by (simp add: Let_def render_simps db_update_simps)
qed

text \<open>The loop in general: it leaves the collection alone or marks one listed document.\<close>

lemma search_loop_resources:
  "resources (snd (snd (search_loop ext inp docs found w))) = resources w
   \<or> (\<exists>d \<in> set docs. clicked inp = Some (Request (fst d))
         \<and> resources (snd (snd (search_loop ext inp docs found w)))
             = map (set_status (fst d) ''requested'') (resources w))"
proof (induction docs arbitrary: found w)
  case Nil
  then show ?case by simp
next
  case (Cons d rest)
  let ?w1 = "render_file ext (snd d) (render (Card (fst d) (snd d)) w)"
  have r1: "resources ?w1 = resources w"
    by (simp add: render_file_simps render_simps)
  show ?case
    using Cons.IH [of found w] Cons.IH [of True ?w1]
    by (auto simp add: Let_def r1 render_simps db_update_simps)
qed

lemma search_loop_frame:
  "next_doc_id (snd (snd (search_loop ext inp docs found w))) = next_doc_id w
   \<and> blobs (snd (snd (search_loop ext inp docs found w))) = blobs w
   \<and> session_user (snd (snd (search_loop ext inp docs found w))) = session_user w"
proof (induction docs arbitrary: found w)
  case Nil
  then show ?case by simp
next
  case (Cons d rest)
  then show ?case
    by (simp add: Let_def render_simps render_file_simps db_update_simps)
qed


lemma search_section_unfold:
  "search_section ext inp w =
     (let r = search_loop ext inp (filter (\<lambda>d. status (snd d) = ''available'') (resources w))
                False (call Db_query_available w)
      in (fst r,
          if fst r = Finished then
            (if \<not> fst (snd r) \<and> search_query inp \<noteq> []
             then render (St_info ''No resources found matching your search.'') (snd (snd r))
             else if search_query inp = []
             then render (St_info ''Tip: Use the search box above to filter resources.'')
                    (snd (snd r))
             else snd (snd r))
          else snd (snd r)))"
proof -
  obtain sig found w2 where r:
    "search_loop ext inp (filter (\<lambda>d. status (snd d) = ''available'') (resources w))
       False (call Db_query_available w) = (sig, found, w2)"
    by (cases "search_loop ext inp (filter (\<lambda>d. status (snd d) = ''available'') (resources w))
       False (call Db_query_available w)") auto
  show ?thesis
    by (cases sig) (simp_all add: search_section_def db_query_available_def r Let_def)
qed

lemma filter_listed:
  "filter (\<lambda>d. status (snd d) = ''available'' \<and> matches ext q (snd d)) ds
     = filter (listed ext q) ds"
  by (induction ds) (auto simp add: listed_def matches_def search_text_def)

lemma search_section_finished:
  assumes "fst (search_section ext inp w) = Finished"
  shows "trace (snd (search_section ext inp w)) = trace w @ [Db_query_available]"
    and "resources (snd (search_section ext inp w)) = resources w"
    and "cards_of (ui (snd (search_section ext inp w)))
           = cards_of (ui w) @ filter (listed ext (search_query inp)) (resources w)"
proof -
  let ?r = "search_loop ext inp (filter (\<lambda>d. status (snd d) = ''available'') (resources w))
                False (call Db_query_available w)"
  from assms have f: "fst ?r = Finished"
    by (simp add: search_section_unfold Let_def)
  note fin = search_loop_finished [OF f]
  show "trace (snd (search_section ext inp w)) = trace w @ [Db_query_available]"
    using fin f by (simp add: search_section_unfold Let_def render_simps trace_call)
  show "resources (snd (search_section ext inp w)) = resources w"
    using fin f by (simp add: search_section_unfold Let_def render_simps call_simps)
  show "cards_of (ui (snd (search_section ext inp w)))
           = cards_of (ui w) @ filter (listed ext (search_query inp)) (resources w)"
    using fin f
    by (simp add: search_section_unfold Let_def render_simps call_simps cards_of_simps
        filter_listed)
qed

lemma search_section_no_request:
  "(\<And>i. clicked inp \<noteq> Some (Request i)) \<Longrightarrow> fst (search_section ext inp w) = Finished"
  by (simp add: search_section_unfold Let_def search_loop_no_request)

lemma search_section_signal:
  "fst (search_section ext inp w) = Finished \<or> fst (search_section ext inp w) = Rerun"
  using search_loop_signal by (simp add: search_section_unfold Let_def)

lemma search_section_frame:
  "next_doc_id (snd (search_section ext inp w)) = next_doc_id w"
  "blobs (snd (search_section ext inp w)) = blobs w"
  "session_user (snd (search_section ext inp w)) = session_user w"
  by (simp_all add: search_section_unfold Let_def render_simps search_loop_frame call_simps)

lemma search_section_ui_prefix:
  "prefix (ui w0) (ui w) \<Longrightarrow> prefix (ui w0) (ui (snd (search_section ext inp w)))"
proof -
  assume p: "prefix (ui w0) (ui w)"
  then have "prefix (ui w0) (ui (call Db_query_available w))"
    by (simp add: call_simps)
  from search_loop_ui_prefix [OF this] show ?thesis
    by (simp add: search_section_unfold Let_def render_simps)
qed

lemma search_section_resources:
  "resources (snd (search_section ext inp w)) = resources w
   \<or> (\<exists>d \<in> set (resources w). status (snd d) = ''available''
         \<and> clicked inp = Some (Request (fst d))
         \<and> resources (snd (search_section ext inp w))
             = map (set_status (fst d) ''requested'') (resources w))"
proof -
  let ?docs = "filter (\<lambda>d. status (snd d) = ''available'') (resources w)"
  let ?r = "search_loop ext inp ?docs False (call Db_query_available w)"
  have eq: "resources (snd (search_section ext inp w)) = resources (snd (snd ?r))"
    by (simp add: search_section_unfold Let_def render_simps)
  from search_loop_resources [of ext inp ?docs False "call Db_query_available w"]
  consider "resources (snd (snd ?r)) = resources w"
    | d where "d \<in> set ?docs" "clicked inp = Some (Request (fst d))"
        "resources (snd (snd ?r)) = map (set_status (fst d) ''requested'') (resources w)"
    by (auto simp add: call_simps)
  then show ?thesis
  proof cases
    case 1
    with eq show ?thesis by simp
  next
    case 2
    from 2(1) have "d \<in> set (resources w)" "status (snd d) = ''available''" by simp_all
    with 2 eq show ?thesis by metis
  qed
qed


lemma auth_section_frame:
  "resources (snd (auth_section ext inp w)) = resources w"
  "next_doc_id (snd (auth_section ext inp w)) = next_doc_id w"
  "blobs (snd (auth_section ext inp w)) = blobs w"
  "cards_of (ui (snd (auth_section ext inp w))) = cards_of (ui w)"
  by (simp_all add: auth_section_def Let_def render_simps call_simps cards_of_simps
      split: option.split sum.split)

lemma auth_section_missing_fields:
  assumes "session_user w = None" "clicked inp = Some Submit" "email inp = [] \<or> password inp = []"
  shows "auth_section ext inp w = (Finished, render (St_error ''Please fill both fields'') w)"
  using assms by (simp add: auth_section_def)

lemma post_section_missing_fields:
  assumes "session_user w = Some u" "clicked inp = Some Post_Resource"
      "title_in inp = [] \<or> description_in inp = []"
  shows "post_section ext inp w
           = (Finished, render (St_error ''Title and description are required.'') w)"
  using assms by (simp add: post_section_def)

lemma post_section_logged_out:
  "session_user w = None \<Longrightarrow> post_section ext inp w = (Finished, w)"
  by (simp add: post_section_def)

lemma post_section_not_clicked:
  "clicked inp \<noteq> Some Post_Resource \<Longrightarrow> post_section ext inp w = (Finished, w)"
  by (simp add: post_section_def split: option.split)

lemma post_section_shape:
  "post_section ext inp w = (Finished, w)
   \<or> post_section ext inp w
         = (Finished, render (St_error ''Title and description are required.'') w)
   \<or> (\<exists>u name content. post_section ext inp w
         = (Raised (NameError ''timedelta''),
            blob_upload (takeWhile (\<lambda>c. c \<noteq> CHR ''@'') u @ ''_'' @ name) content w))
   \<or> (\<exists>u. clicked inp = Some Post_Resource \<and> title_in inp \<noteq> [] \<and> description_in inp \<noteq> []
         \<and> post_section ext inp w
         = (Finished,
            render (St_info (fst (process_resource_with_agents ext (new_resource inp u [])
                       (db_add (new_resource inp u []) w))))
              (render (St_success ''Resource posted successfully!'')
                (snd (process_resource_with_agents ext (new_resource inp u [])
                       (db_add (new_resource inp u []) w))))))"
proof (cases "session_user w")
  case None
  then show ?thesis by (simp add: post_section_logged_out)
next
  case (Some u)
  show ?thesis
  proof (cases "clicked inp = Some Post_Resource")
    case False
    then show ?thesis by (simp add: post_section_not_clicked)
  next
    case True
    show ?thesis
    proof (cases "title_in inp = [] \<or> description_in inp = []")
      case True
      with Some \<open>clicked inp = Some Post_Resource\<close> show ?thesis
        by (simp add: post_section_missing_fields)
    next
      case False
      show ?thesis
      proof (cases "uploaded_file inp")
        case None
        with False Some True
          post_section_valid_no_file [of w u inp ext]
        show ?thesis by auto
      next
        case (Some f)
        obtain name content where "f = (name, content)" by (cases f)
        with Some False True \<open>session_user w = Some u\<close>
          post_section_with_file [of w u inp name content ext]
        show ?thesis by auto
      qed
    qed
  qed
qed

lemma db_add_simps:
  "ui (db_add r w) = ui w"
  "trace (db_add r w) = trace w @ [Db_add r]"
  "resources (db_add r w) = resources w @ [(next_doc_id w, r)]"
  "next_doc_id (db_add r w) = Suc (next_doc_id w)"
  "blobs (db_add r w) = blobs w"
  "session_user (db_add r w) = session_user w"
  by (simp_all add: db_add_def call_def)

lemma blob_upload_simps:
  "ui (blob_upload n c w) = ui w"
  "trace (blob_upload n c w) = trace w @ [Blob_upload n c]"
  "resources (blob_upload n c w) = resources w"
  "next_doc_id (blob_upload n c w) = next_doc_id w"
  "session_user (blob_upload n c w) = session_user w"
  by (simp_all add: blob_upload_def call_def)

lemma post_section_cards:
  "cards_of (ui (snd (post_section ext inp w))) = cards_of (ui w)"
  using post_section_shape [of ext inp w]
  by (auto simp add: render_simps process_frame cards_of_simps db_add_simps blob_upload_simps)

lemma post_section_session:
  "session_user (snd (post_section ext inp w)) = session_user w"
  using post_section_shape [of ext inp w]
  by (auto simp add: render_simps process_frame db_add_simps blob_upload_simps)

text \<open>A pass that runs to its end shows exactly the listed documents of the collection.\<close>

lemma script_pass_finished_cards:
  assumes "fst (script_pass ext inp w) = Finished"
  shows "cards_of (ui (snd (script_pass ext inp w)))
           = cards_of (ui w)
             @ filter (listed ext (search_query inp)) (resources (snd (script_pass ext inp w)))"
proof -
  obtain s1 w1 where a: "auth_section ext inp w = (s1, w1)"
    by (cases "auth_section ext inp w") auto
  obtain s2 w2 where p: "post_section ext inp w1 = (s2, w2)"
    by (cases "post_section ext inp w1") auto
  from assms a have s1: "s1 = Finished"
    by (cases s1) (simp_all add: script_pass_def)
  from assms a p s1 have s2: "s2 = Finished"
    by (cases s2) (simp_all add: script_pass_def)
  have sp: "script_pass ext inp w = search_section ext inp w2"
    by (simp add: script_pass_def a p s1 s2)
  with assms have f: "fst (search_section ext inp w2) = Finished" by simp
  have c1: "cards_of (ui w1) = cards_of (ui w)"
    using auth_section_frame(4) [of ext inp w] by (simp add: a)
  have c2: "cards_of (ui w2) = cards_of (ui w1)"
    using post_section_cards [of ext inp w1] by (simp add: p)
  show ?thesis
    using search_section_finished(2,3) [OF f] by (simp add: sp c1 c2)
qed

lemma script_pass_no_click:
  "clicked inp = None \<Longrightarrow> fst (script_pass ext inp w) = Finished"
proof -
  assume n: "clicked inp = None"
  have a: "fst (auth_section ext inp w) = Finished"
    using n by (simp add: auth_section_def Let_def split: option.split)
  obtain w1 where a': "auth_section ext inp w = (Finished, w1)"
    using a by (cases "auth_section ext inp w") auto
  have p: "post_section ext inp w1 = (Finished, w1)"
    using n by (simp add: post_section_not_clicked)
  have "fst (search_section ext inp w1) = Finished"
    using n by (simp add: search_section_no_request)
  then show ?thesis
    by (simp add: script_pass_def a' p)
qed

text \<open>
  Claim C10. In a run that reaches its end, the cards on the page are exactly the documents
  of the collection whose status is \<^verbatim>\<open>available\<close> and for which the query is empty or,
  in lower case, a substring of the lower-cased title, description and category joined by
  single spaces.
\<close>

theorem search_shows_available_matches:
  assumes "fst (run_script ext inp w) = Finished"
  shows "cards_of (ui (snd (run_script ext inp w)))
           = filter (listed ext (search_query inp)) (resources (snd (run_script ext inp w)))
       \<and> ((i, r) \<in> set (cards_of (ui (snd (run_script ext inp w)))) \<longleftrightarrow>
            (i, r) \<in> set (resources (snd (run_script ext inp w)))
            \<and> status r = ''available''
            \<and> (search_query inp = []
               \<or> sublist (py_lower ext (search_query inp))
                    (py_lower ext (title r @ '' '' @ description r @ '' '' @ category r))))"
proof -
  obtain s1 w1 where p1: "script_pass ext inp (w\<lparr>ui := []\<rparr>) = (s1, w1)"
    by (cases "script_pass ext inp (w\<lparr>ui := []\<rparr>)") auto
  have eq: "cards_of (ui (snd (run_script ext inp w)))
           = filter (listed ext (search_query inp)) (resources (snd (run_script ext inp w)))"
  proof (cases s1)
    case Finished
    then have r: "run_script ext inp w = script_pass ext inp (w\<lparr>ui := []\<rparr>)"
      by (simp add: run_script_def p1)
    from p1 Finished have "fst (script_pass ext inp (w\<lparr>ui := []\<rparr>)) = Finished" by simp
    from script_pass_finished_cards [OF this] show ?thesis
      by (simp add: r cards_of_simps)
  next
    case Rerun
    then have r: "run_script ext inp w
                    = script_pass ext (inp\<lparr>clicked := None\<rparr>) (w1\<lparr>ui := []\<rparr>)"
      by (simp add: run_script_def p1)
    have "fst (script_pass ext (inp\<lparr>clicked := None\<rparr>) (w1\<lparr>ui := []\<rparr>)) = Finished"
      by (simp add: script_pass_no_click)
    from script_pass_finished_cards [OF this] show ?thesis
      by (simp add: r cards_of_simps)
  next
    case (Raised e)
    with assms p1 show ?thesis by (simp add: run_script_def)
  qed
  show ?thesis
    unfolding eq by (auto simp add: listed_def)
qed


lemma run_script_after_handlers:
  assumes a: "auth_section ext inp (w\<lparr>ui := []\<rparr>) = (Finished, w1)"
      and p: "post_section ext inp w1 = (Finished, w2)"
      and n: "\<And>i. clicked inp \<noteq> Some (Request i)"
  shows "fst (run_script ext inp w) = Finished"
    and "trace (snd (run_script ext inp w)) = trace w2 @ [Db_query_available]"
    and "resources (snd (run_script ext inp w)) = resources w2"
    and "blobs (snd (run_script ext inp w)) = blobs w2"
    and "session_user (snd (run_script ext inp w)) = session_user w2"
    and "set (ui w2) \<subseteq> set (ui (snd (run_script ext inp w)))"
proof -
  have f: "fst (search_section ext inp w2) = Finished"
    using n by (rule search_section_no_request)
  have sp: "script_pass ext inp (w\<lparr>ui := []\<rparr>) = search_section ext inp w2"
    by (simp add: script_pass_def a p)
  obtain w3 where s3: "search_section ext inp w2 = (Finished, w3)"
    using f by (cases "search_section ext inp w2") auto
  have r: "run_script ext inp w = search_section ext inp w2"
    by (simp add: run_script_def sp s3)
  show "fst (run_script ext inp w) = Finished"
    by (simp add: r f)
  show "trace (snd (run_script ext inp w)) = trace w2 @ [Db_query_available]"
    by (simp add: r search_section_finished(1) [OF f])
  show "resources (snd (run_script ext inp w)) = resources w2"
    by (simp add: r search_section_finished(2) [OF f])
  show "blobs (snd (run_script ext inp w)) = blobs w2"
    by (simp add: r search_section_frame)
  show "session_user (snd (run_script ext inp w)) = session_user w2"
    by (simp add: r search_section_frame)
  have "prefix (ui w2) (ui (snd (search_section ext inp w2)))"
    by (rule search_section_ui_prefix) simp
  then show "set (ui w2) \<subseteq> set (ui (snd (run_script ext inp w)))"
    by (simp add: r set_mono_prefix)
qed

text \<open>
  Claim C9. A post with an empty title or description, and a login or signup with an empty
  email or password: the handler only puts the validation error on the page and changes
  nothing else. In the whole run the error is shown, the collection and the bucket are
  unchanged, and the only call to a managed service is the read of the search block, which
  every completed run makes: no upload, no write to the collection, no identity call and
  no model call.
\<close>

theorem missing_fields_touch_no_service:
  "(session_user w = Some u \<and> clicked inp = Some Post_Resource
      \<and> (title_in inp = [] \<or> description_in inp = []) \<longrightarrow>
    post_section ext inp w
      = (Finished, render (St_error ''Title and description are required.'') w)
    \<and> fst (run_script ext inp w) = Finished
    \<and> St_error ''Title and description are required.'' \<in> set (ui (snd (run_script ext inp w)))
    \<and> trace (snd (run_script ext inp w)) = trace w @ [Db_query_available]
    \<and> resources (snd (run_script ext inp w)) = resources w
    \<and> blobs (snd (run_script ext inp w)) = blobs w)
   \<and> (session_user w = None \<and> clicked inp = Some Submit
      \<and> (email inp = [] \<or> password inp = []) \<longrightarrow>
    auth_section ext inp w = (Finished, render (St_error ''Please fill both fields'') w)
    \<and> fst (run_script ext inp w) = Finished
    \<and> St_error ''Please fill both fields'' \<in> set (ui (snd (run_script ext inp w)))
    \<and> trace (snd (run_script ext inp w)) = trace w @ [Db_query_available]
    \<and> resources (snd (run_script ext inp w)) = resources w
    \<and> blobs (snd (run_script ext inp w)) = blobs w
    \<and> session_user (snd (run_script ext inp w)) = None)"
proof (intro conjI impI)
  assume h: "session_user w = Some u \<and> clicked inp = Some Post_Resource
      \<and> (title_in inp = [] \<or> description_in inp = [])"
  let ?w1 = "render (St_success (''Logged in as: '' @ u)) (w\<lparr>ui := []\<rparr>)"
  let ?w2 = "render (St_error ''Title and description are required.'') ?w1"
  have a: "auth_section ext inp (w\<lparr>ui := []\<rparr>) = (Finished, ?w1)"
    using h by (simp add: auth_section_logged_in)
  have u1: "session_user ?w1 = Some u"
    using h by (simp add: render_def)
  have p: "post_section ext inp ?w1 = (Finished, ?w2)"
    using u1 h by (simp only: post_section_missing_fields)
  have n: "\<And>i. clicked inp \<noteq> Some (Request i)"
    using h by simp
  note run = run_script_after_handlers [OF a p n]
  show "post_section ext inp w
      = (Finished, render (St_error ''Title and description are required.'') w)"
    using h by (simp only: post_section_missing_fields)
  show "fst (run_script ext inp w) = Finished"
    by (rule run(1))
  show "St_error ''Title and description are required.'' \<in> set (ui (snd (run_script ext inp w)))"
    using run(6) by (auto simp add: render_def)
  show "trace (snd (run_script ext inp w)) = trace w @ [Db_query_available]"
    using run(2) by (simp add: render_def)
  show "resources (snd (run_script ext inp w)) = resources w"
    using run(3) by (simp add: render_def)
  show "blobs (snd (run_script ext inp w)) = blobs w"
    using run(4) by (simp add: render_def)
next
  assume h: "session_user w = None \<and> clicked inp = Some Submit
      \<and> (email inp = [] \<or> password inp = [])"
  let ?w1 = "render (St_error ''Please fill both fields'') (w\<lparr>ui := []\<rparr>)"
  have a: "auth_section ext inp (w\<lparr>ui := []\<rparr>) = (Finished, ?w1)"
    using h by (simp add: auth_section_missing_fields)
  have p: "post_section ext inp ?w1 = (Finished, ?w1)"
    using h by (simp add: post_section_not_clicked)
  have n: "\<And>i. clicked inp \<noteq> Some (Request i)"
    using h by simp
  note run = run_script_after_handlers [OF a p n]
  show "auth_section ext inp w = (Finished, render (St_error ''Please fill both fields'') w)"
    using h by (simp add: auth_section_missing_fields)
  show "fst (run_script ext inp w) = Finished"
    by (rule run(1))
  show "St_error ''Please fill both fields'' \<in> set (ui (snd (run_script ext inp w)))"
    using run(6) by (auto simp add: render_def)
  show "trace (snd (run_script ext inp w)) = trace w @ [Db_query_available]"
    using run(2) by (simp add: render_def)
  show "resources (snd (run_script ext inp w)) = resources w"
    using run(3) by (simp add: render_def)
  show "blobs (snd (run_script ext inp w)) = blobs w"
    using run(4) by (simp add: render_def)
  show "session_user (snd (run_script ext inp w)) = None"
    using run(5) h by (simp add: render_def)
qed

theorem missing_fields_touch_no_service_witness:
  "fst (run_script (stub_ext cleaner approving recommender) empty_post logged_in) = Finished
   \<and> St_error ''Title and description are required.''
       \<in> set (ui (snd (run_script (stub_ext cleaner approving recommender) empty_post logged_in)))
   \<and> trace (snd (run_script (stub_ext cleaner approving recommender) empty_post logged_in))
       = [Db_query_available]
   \<and> resources (snd (run_script (stub_ext cleaner approving recommender) empty_post logged_in))
       = []
   \<and> fst (run_script (stub_ext cleaner approving recommender) empty_login fresh_world) = Finished
   \<and> St_error ''Please fill both fields''
       \<in> set (ui (snd (run_script (stub_ext cleaner approving recommender) empty_login
            fresh_world)))
   \<and> trace (snd (run_script (stub_ext cleaner approving recommender) empty_login fresh_world))
       = [Db_query_available]
   \<and> resources (snd (run_script (stub_ext cleaner approving recommender) empty_login
        fresh_world)) = []"
  using missing_fields_touch_no_service
      [of logged_in "''asha@college.edu''" empty_post "stub_ext cleaner approving recommender"]
    missing_fields_touch_no_service
      [of fresh_world "''asha@college.edu''" empty_login "stub_ext cleaner approving recommender"]
  by (simp add: logged_in_simps empty_post_def empty_login_def no_input_def fresh_world_def)

theorem search_shows_available_matches_witness:
  "fst (run_script (stub_ext cleaner approving recommender) search_andrew two_listings) = Finished
   \<and> cards_of (ui (snd (run_script (stub_ext cleaner approving recommender) search_andrew
        two_listings)))
     = filter (listed (stub_ext cleaner approving recommender) ''ANDREW'')
         (resources (snd (run_script (stub_ext cleaner approving recommender) search_andrew
            two_listings)))
   \<and> cards_of (ui (snd (run_script (stub_ext cleaner approving recommender) search_andrew
        two_listings))) = [(0, ml_book)]"
proof -
  have f: "fst (run_script (stub_ext cleaner approving recommender) search_andrew two_listings)
             = Finished"
    by code_simp
  have q: "search_query search_andrew = ''ANDREW''"
    by (simp add: search_andrew_def no_input_def)
  have c: "cards_of (ui (snd (run_script (stub_ext cleaner approving recommender) search_andrew
        two_listings))) = [(0, ml_book)]"
    by code_simp
  from search_shows_available_matches [OF f] f c show ?thesis
    by (simp add: q)
qed

section \<open>The status of a listing only moves forward\<close>

lemma same_doc_forward_refl: "same_doc_forward d d"
  by (simp add: same_doc_forward_def forward_only_def)

lemma same_doc_forward_trans:
  "same_doc_forward a b \<Longrightarrow> same_doc_forward b c \<Longrightarrow> same_doc_forward a c"
  by (auto simp add: same_doc_forward_def forward_only_def)

lemma evolves_nth:
  "evolves ds ds' \<longleftrightarrow>
     length ds \<le> length ds' \<and> (\<forall>k < length ds. same_doc_forward (ds ! k) (ds' ! k))"
  by (auto simp add: evolves_def list_all2_conv_all_nth)

lemma evolves_refl: "evolves ds ds"
  by (simp add: evolves_nth same_doc_forward_refl)

lemma evolves_trans: "evolves a b \<Longrightarrow> evolves b c \<Longrightarrow> evolves a c"
  unfolding evolves_nth
  by (meson le_trans less_le_trans same_doc_forward_trans)

lemma evolves_append: "evolves ds (ds @ es)"
  by (simp add: evolves_nth nth_append same_doc_forward_refl)

lemma fst_set_status: "fst (set_status i s d) = fst d"
  by (simp add: set_status_def)

lemma map_fst_set_status: "map (fst \<circ> set_status i s) ds = map fst ds"
  by (induction ds) (simp_all add: fst_set_status)

lemma evolves_request:
  assumes "distinct (map fst ds)" and "d \<in> set ds" and "status (snd d) = ''available''"
  shows "evolves ds (map (set_status (fst d) ''requested'') ds)"
proof -
  have "same_doc_forward x (set_status (fst d) ''requested'' x)" if x: "x \<in> set ds" for x
  proof (cases "fst x = fst d")
    case True
    from x True have "(fst d, snd x) \<in> set ds"
      by (metis prod.collapse)
    moreover from assms(2) have "(fst d, snd d) \<in> set ds"
      by simp
    ultimately have "snd x = snd d"
      using assms(1) by (metis eq_key_imp_eq_value)
    with True assms(3) show ?thesis
      by (simp add: same_doc_forward_def forward_only_def set_status_def)
  next
    case False
    then show ?thesis
      by (simp add: set_status_def same_doc_forward_refl)
  qed
  then show ?thesis
    by (simp add: evolves_def list_all2_map2 list_all2_same)
qed

text \<open>What one pass may do to the collection.\<close>

lemma post_section_store:
  "(resources (snd (post_section ext inp w)) = resources w
      \<and> next_doc_id (snd (post_section ext inp w)) = next_doc_id w)
   \<or> (\<exists>r. clicked inp = Some Post_Resource \<and> created_ok (next_doc_id w, r)
         \<and> resources (snd (post_section ext inp w)) = resources w @ [(next_doc_id w, r)]
         \<and> next_doc_id (snd (post_section ext inp w)) = Suc (next_doc_id w))"
  using post_section_shape [of ext inp w]
  by (auto simp add: render_simps process_frame db_add_simps blob_upload_simps created_ok_def
      new_resource_def)

lemma script_pass_store:
  "(resources (snd (script_pass ext inp w)) = resources w
      \<and> next_doc_id (snd (script_pass ext inp w)) = next_doc_id w)
   \<or> (\<exists>r. clicked inp = Some Post_Resource \<and> created_ok (next_doc_id w, r)
         \<and> resources (snd (script_pass ext inp w)) = resources w @ [(next_doc_id w, r)]
         \<and> next_doc_id (snd (script_pass ext inp w)) = Suc (next_doc_id w))
   \<or> (\<exists>d \<in> set (resources w). status (snd d) = ''available''
         \<and> clicked inp = Some (Request (fst d))
         \<and> resources (snd (script_pass ext inp w))
             = map (set_status (fst d) ''requested'') (resources w)
         \<and> next_doc_id (snd (script_pass ext inp w)) = next_doc_id w)"
proof -
  obtain s1 w1 where a: "auth_section ext inp w = (s1, w1)"
    by (cases "auth_section ext inp w") auto
  obtain s2 w2 where p: "post_section ext inp w1 = (s2, w2)"
    by (cases "post_section ext inp w1") auto
  have a1: "resources w1 = resources w" "next_doc_id w1 = next_doc_id w"
    using auth_section_frame(1,2) [of ext inp w] by (simp_all add: a)
  have p2: "(resources w2 = resources w \<and> next_doc_id w2 = next_doc_id w)
   \<or> (\<exists>r. clicked inp = Some Post_Resource \<and> created_ok (next_doc_id w, r)
         \<and> resources w2 = resources w @ [(next_doc_id w, r)]
         \<and> next_doc_id w2 = Suc (next_doc_id w))"
    using post_section_store [of ext inp w1] by (simp add: p a1)
  show ?thesis
  proof (cases "s1 = Finished")
    case False
    then have "snd (script_pass ext inp w) = w1"
      by (cases s1) (simp_all add: script_pass_def a)
    with a1 show ?thesis by auto
  next
    case True
    show ?thesis
    proof (cases "s2 = Finished")
      case False
      then have "snd (script_pass ext inp w) = w2"
        using True by (cases s2) (simp_all add: script_pass_def a p)
      with p2 show ?thesis by auto
    next
      case s2: True
      have sp: "script_pass ext inp w = search_section ext inp w2"
        by (simp add: script_pass_def a p True s2)
      have n3: "next_doc_id (snd (search_section ext inp w2)) = next_doc_id w2"
        by (rule search_section_frame)
      from p2 show ?thesis
      proof
        assume same: "resources w2 = resources w \<and> next_doc_id w2 = next_doc_id w"
        with search_section_resources [of ext inp w2] n3 show ?thesis
          by (auto simp add: sp)
      next
        assume "\<exists>r. clicked inp = Some Post_Resource \<and> created_ok (next_doc_id w, r)
         \<and> resources w2 = resources w @ [(next_doc_id w, r)]
         \<and> next_doc_id w2 = Suc (next_doc_id w)"
        then obtain r where r: "clicked inp = Some Post_Resource" "created_ok (next_doc_id w, r)"
          "resources w2 = resources w @ [(next_doc_id w, r)]"
          "next_doc_id w2 = Suc (next_doc_id w)"
          by blast
        from r(1) have "fst (search_section ext inp w2) = Finished"
          by (simp add: search_section_no_request)
        from search_section_finished(2) [OF this] r n3 show ?thesis
          by (auto simp add: sp)
      qed
    qed
  qed
qed

lemma run_script_store:
  "(resources (snd (run_script ext inp w)) = resources w
      \<and> next_doc_id (snd (run_script ext inp w)) = next_doc_id w)
   \<or> (\<exists>r. clicked inp = Some Post_Resource \<and> created_ok (next_doc_id w, r)
         \<and> resources (snd (run_script ext inp w)) = resources w @ [(next_doc_id w, r)]
         \<and> next_doc_id (snd (run_script ext inp w)) = Suc (next_doc_id w))
   \<or> (\<exists>d \<in> set (resources w). status (snd d) = ''available''
         \<and> clicked inp = Some (Request (fst d))
         \<and> resources (snd (run_script ext inp w))
             = map (set_status (fst d) ''requested'') (resources w)
         \<and> next_doc_id (snd (run_script ext inp w)) = next_doc_id w)"
proof -
  obtain s1 w1 where p1: "script_pass ext inp (w\<lparr>ui := []\<rparr>) = (s1, w1)"
    by (cases "script_pass ext inp (w\<lparr>ui := []\<rparr>)") auto
  have first: "(resources w1 = resources w \<and> next_doc_id w1 = next_doc_id w)
   \<or> (\<exists>r. clicked inp = Some Post_Resource \<and> created_ok (next_doc_id w, r)
         \<and> resources w1 = resources w @ [(next_doc_id w, r)]
         \<and> next_doc_id w1 = Suc (next_doc_id w))
   \<or> (\<exists>d \<in> set (resources w). status (snd d) = ''available''
         \<and> clicked inp = Some (Request (fst d))
         \<and> resources w1 = map (set_status (fst d) ''requested'') (resources w)
         \<and> next_doc_id w1 = next_doc_id w)"
    using script_pass_store [of ext inp "w\<lparr>ui := []\<rparr>"] by (simp add: p1)
  show ?thesis
  proof (cases "s1 = Rerun")
    case False
    then have "snd (run_script ext inp w) = w1"
      by (cases s1) (simp_all add: run_script_def p1)
    with first show ?thesis by auto
  next
    case True
    then have r: "run_script ext inp w = script_pass ext (inp\<lparr>clicked := None\<rparr>) (w1\<lparr>ui := []\<rparr>)"
      by (simp add: run_script_def p1)
    have "resources (snd (run_script ext inp w)) = resources w1
        \<and> next_doc_id (snd (run_script ext inp w)) = next_doc_id w1"
      using script_pass_store [of ext "inp\<lparr>clicked := None\<rparr>" "w1\<lparr>ui := []\<rparr>"]
      by (simp add: r)
    with first show ?thesis by auto
  qed
qed


lemma run_script_forward:
  assumes "wf_store w"
  shows "wf_store (snd (run_script ext inp w))"
    and "evolves (resources w) (resources (snd (run_script ext inp w)))"
    and "list_all created_ok
           (drop (length (resources w)) (resources (snd (run_script ext inp w))))"
    and "(\<And>i. clicked inp \<noteq> Some (Request i)) \<Longrightarrow>
           take (length (resources w)) (resources (snd (run_script ext inp w))) = resources w"
proof -
  let ?w' = "snd (run_script ext inp w)"
  from run_script_store [of ext inp w]
  consider
      (same) "resources ?w' = resources w" "next_doc_id ?w' = next_doc_id w"
    | (added) r where "created_ok (next_doc_id w, r)"
        "resources ?w' = resources w @ [(next_doc_id w, r)]"
        "next_doc_id ?w' = Suc (next_doc_id w)"
    | (requested) d where "d \<in> set (resources w)" "status (snd d) = ''available''"
        "clicked inp = Some (Request (fst d))"
        "resources ?w' = map (set_status (fst d) ''requested'') (resources w)"
        "next_doc_id ?w' = next_doc_id w"
    by blast
  then have "wf_store ?w' \<and> evolves (resources w) (resources ?w')
       \<and> list_all created_ok (drop (length (resources w)) (resources ?w'))
       \<and> ((\<forall>i. clicked inp \<noteq> Some (Request i)) \<longrightarrow>
             take (length (resources w)) (resources ?w') = resources w)"
  proof cases
    case same
    with assms show ?thesis
      by (simp add: wf_store_def evolves_refl)
  next
    case added
    have "next_doc_id w \<notin> fst ` set (resources w)"
      using assms by (auto simp add: wf_store_def list_all_iff)
    moreover have "list_all (\<lambda>d. fst d < Suc (next_doc_id w)) (resources w)"
      using assms by (auto simp add: wf_store_def list_all_iff)
    ultimately show ?thesis
      using assms added by (simp add: wf_store_def evolves_append)
  next
    case requested
    have "evolves (resources w) (map (set_status (fst d) ''requested'') (resources w))"
      using assms requested(1,2) by (simp add: evolves_request wf_store_def)
    moreover have "list_all (\<lambda>x. fst x < next_doc_id w)
                     (map (set_status (fst d) ''requested'') (resources w))"
      using assms by (simp add: wf_store_def list_all_iff fst_set_status)
    ultimately show ?thesis
      using assms requested by (simp add: wf_store_def map_fst_set_status)
  qed
  then show "wf_store ?w'"
    and "evolves (resources w) (resources ?w')"
    and "list_all created_ok (drop (length (resources w)) (resources ?w'))"
    and "(\<And>i. clicked inp \<noteq> Some (Request i)) \<Longrightarrow>
           take (length (resources w)) (resources ?w') = resources w"
    by simp_all
qed

lemma session_forward:
  "wf_store w \<Longrightarrow>
     wf_store (session ext inps w) \<and> evolves (resources w) (resources (session ext inps w))"
proof (induction inps arbitrary: w)
  case Nil
  then show ?case by (simp add: evolves_refl)
next
  case (Cons inp inps)
  from Cons.prems have w1: "wf_store (snd (run_script ext inp w))"
    and e1: "evolves (resources w) (resources (snd (run_script ext inp w)))"
    by (rule run_script_forward)+
  from Cons.IH [OF w1] e1 show ?case
    by (auto intro: evolves_trans)
qed

lemma evolves_requested_stays:
  assumes "evolves ds ds'" and "k < length ds" and "status (snd (ds ! k)) = ''requested''"
  shows "status (snd (ds' ! k)) = ''requested''"
  using assms by (auto simp add: evolves_nth same_doc_forward_def forward_only_def)

text \<open>
  Claim C7. From a collection with unique document ids: every document a run adds has a
  non-empty title, a non-empty description and status \<^verbatim>\<open>available\<close>; a run in which no
  request button is down leaves every existing document as it was; after one run, and
  after any sequence of runs, every document that was there is still there under its id
  and is either unchanged or went from \<^verbatim>\<open>available\<close> to \<^verbatim>\<open>requested\<close> with nothing
  else changed; in particular a \<^verbatim>\<open>requested\<close> listing stays \<^verbatim>\<open>requested\<close>.
\<close>

theorem status_only_moves_forward:
  assumes "wf_store w"
  shows "list_all created_ok
           (drop (length (resources w)) (resources (snd (run_script ext inp w))))
       \<and> ((\<forall>i. clicked inp \<noteq> Some (Request i)) \<longrightarrow>
             take (length (resources w)) (resources (snd (run_script ext inp w))) = resources w)
       \<and> evolves (resources w) (resources (snd (run_script ext inp w)))
       \<and> evolves (resources w) (resources (session ext inps w))
       \<and> (\<forall>k < length (resources w).
             status (snd (resources w ! k)) = ''requested'' \<longrightarrow>
             status (snd (resources (session ext inps w) ! k)) = ''requested'')"
proof -
  note one = run_script_forward [OF assms, where ext = ext and inp = inp]
  from session_forward [OF assms, where ext = ext and inps = inps]
  have many: "evolves (resources w) (resources (session ext inps w))"
    by simp
  show ?thesis
    using one(2,3,4) many evolves_requested_stays [OF many]
    by simp
qed

theorem status_only_moves_forward_witness:
  "wf_store two_listings
   \<and> list_all created_ok
       (drop (length (resources two_listings))
          (resources (snd (run_script (stub_ext cleaner approving recommender) post_ml_book
             two_listings))))
   \<and> evolves (resources two_listings)
       (resources (session (stub_ext cleaner approving recommender)
          [request_first, post_ml_book] two_listings))
   \<and> map (\<lambda>d. (fst d, status (snd d)))
       (resources (session (stub_ext cleaner approving recommender)
          [request_first, post_ml_book] two_listings))
     = [(0, ''requested''), (1, ''requested''), (2, ''available'')]
   \<and> status (snd (resources (session (stub_ext cleaner approving recommender)
          [request_first, post_ml_book] two_listings) ! 1)) = ''requested''"
proof -
  have wf: "wf_store two_listings"
    by code_simp
  have k: "(1::nat) < length (resources two_listings)"
    "status (snd (resources two_listings ! 1)) = ''requested''"
    by (simp_all add: two_listings_def ml_book_def)
  have run: "map (\<lambda>d. (fst d, status (snd d)))
       (resources (session (stub_ext cleaner approving recommender)
          [request_first, post_ml_book] two_listings))
     = [(0, ''requested''), (1, ''requested''), (2, ''available'')]"
    by code_simp
  from status_only_moves_forward [OF wf, where ext = "stub_ext cleaner approving recommender"
      and inp = post_ml_book and inps = "[request_first, post_ml_book]"] wf k run
  show ?thesis
    by simp
qed

end
